theory Spec2Isabelle
  imports Main
begin

section \<open>JavaScript values\<close>

text \<open>
  The controller of \<^verbatim>\<open>core/src/components/select.ts\<close> is generic in the item type
  \<^verbatim>\<open>T\<close> and the value type \<^verbatim>\<open>V\<close>; the component instantiates both with
  \<^verbatim>\<open>any\<close>. Items and values are therefore JavaScript values. An object is a
  reference (a natural number standing for its address) together with its own
  properties; items are never mutated by the controller, so HOL equality on
  \<open>jsval\<close> is JavaScript's \<^verbatim>\<open>===\<close> (and the SameValueZero of \<^verbatim>\<open>Set\<close> and
  \<^verbatim>\<open>Map\<close>). Numbers are the integer-valued ones; \<^verbatim>\<open>NaN\<close> and fractions are
  outside the model.

  \<open>JProxy r fs\<close> is the reactive proxy that the runtime hands out for the object
  \<open>JObj r fs\<close>: another reference than the object itself, and always the same one for
  the same object. Objects are the plain, extensible ones; frozen objects and objects
  that the runtime leaves unwrapped are outside the model.
\<close>

datatype jsval =
    JUndefined
  | JNull
  | JBool bool
  | JNum int
  | JStr string
  | JObj nat "(string \<times> jsval) list"
  | JProxy nat "(string \<times> jsval) list"

datatype err = TypeError | ConfigurationError

text \<open>\<^verbatim>\<open>!!x\<close>: the truthiness of a value.\<close>

fun truthy :: "jsval \<Rightarrow> bool" where
  "truthy JUndefined = False"
| "truthy JNull = False"
| "truthy (JBool b) = b"
| "truthy (JNum n) = (n \<noteq> 0)"
| "truthy (JStr s) = (s \<noteq> [])"
| "truthy (JObj r fs) = True"
| "truthy (JProxy r fs) = True"

text \<open>
  The runtime's \<^verbatim>\<open>toReactive\<close> and \<^verbatim>\<open>toRaw\<close>: an object is wrapped into its proxy,
  a proxy is unwrapped into its object, and every other value is left as it is.
\<close>

fun toReactive :: "jsval \<Rightarrow> jsval" where
  "toReactive (JObj r fs) = JProxy r fs"
| "toReactive v = v"

fun toRaw :: "jsval \<Rightarrow> jsval" where
  "toRaw (JProxy r fs) = JObj r fs"
| "toRaw v = v"

text \<open>
  \<^verbatim>\<open>item[key]\<close>: reading a property of \<^verbatim>\<open>undefined\<close> or \<^verbatim>\<open>null\<close> throws a
  TypeError; an object yields its own property or \<^verbatim>\<open>undefined\<close>; a proxy yields
  the property of its object, wrapped in turn; a primitive has no own property (inherited
  ones such as \<^verbatim>\<open>length\<close> are outside the model).
\<close>

fun get_prop :: "jsval \<Rightarrow> string \<Rightarrow> err + jsval" where
  "get_prop JUndefined k = Inl TypeError"
| "get_prop JNull k = Inl TypeError"
| "get_prop (JObj r fs) k = Inr (case map_of fs k of None \<Rightarrow> JUndefined | Some v \<Rightarrow> v)"
| "get_prop (JProxy r fs) k =
     Inr (toReactive (case map_of fs k of None \<Rightarrow> JUndefined | Some v \<Rightarrow> v))"
| "get_prop v k = Inr JUndefined"

text \<open>Decimal digits of a number, for the string conversion that \<^verbatim>\<open>join\<close> applies.\<close>

function digits :: "nat \<Rightarrow> string" where
  "digits n = (if n < 10 then [char_of (48 + n)] else digits (n div 10) @ [char_of (48 + n mod 10)])"
  by pat_completeness auto
termination
  by (relation "measure id") auto

declare digits.simps [simp del]

fun js_toString :: "jsval \<Rightarrow> string" where
  "js_toString JUndefined = ''undefined''"
| "js_toString JNull = ''null''"
| "js_toString (JBool b) = (if b then ''true'' else ''false'')"
| "js_toString (JNum n) = (if n < 0 then CHR ''-'' # digits (nat (- n)) else digits (nat n))"
| "js_toString (JStr s) = s"
| "js_toString (JObj r fs) = ''[object Object]''"
| "js_toString (JProxy r fs) = ''[object Object]''"

text \<open>\<^verbatim>\<open>xs.join(',')\<close>: \<^verbatim>\<open>undefined\<close> and \<^verbatim>\<open>null\<close> elements become the empty string.\<close>

fun join_elem :: "jsval \<Rightarrow> string" where
  "join_elem JUndefined = []"
| "join_elem JNull = []"
| "join_elem v = js_toString v"

fun join :: "jsval list \<Rightarrow> string" where
  "join [] = []"
| "join [x] = join_elem x"
| "join (x # y # ys) = join_elem x @ '','' @ join (y # ys)"

text \<open>\<^verbatim>\<open>xs.map(f)\<close> for a callback that may throw: the first exception ends the map.\<close>

fun mapE :: "('a \<Rightarrow> err + 'b) \<Rightarrow> 'a list \<Rightarrow> err + 'b list" where
  "mapE f [] = Inr []"
| "mapE f (x # xs) =
     (case f x of
        Inl e \<Rightarrow> Inl e
      | Inr y \<Rightarrow> (case mapE f xs of Inl e \<Rightarrow> Inl e | Inr ys \<Rightarrow> Inr (y # ys)))"

section \<open>The membership tracker: \<^verbatim>\<open>useSet\<close>\<close>

text \<open>
  \<^verbatim>\<open>values\<close> is a JavaScript \<^verbatim>\<open>Set\<close>, which iterates in insertion order
  (\<^verbatim>\<open>Array.from(s.values)\<close> is read by the watcher): a list without repetition, the
  most recently inserted element last. \<^verbatim>\<open>updated\<close> is the \<^verbatim>\<open>ref(0)\<close>; it is a
  natural number (the counter is exact below \<open>2^53\<close>).
\<close>

record 't SetState =
  svalues :: "'t list"
  updated :: nat

text \<open>\<^verbatim>\<open>Set.prototype.add\<close>, \<^verbatim>\<open>delete\<close> (with its boolean result) and \<^verbatim>\<open>has\<close>.\<close>

definition set_add :: "'t \<Rightarrow> 't list \<Rightarrow> 't list" where
  "set_add item vs = (if item \<in> set vs then vs else vs @ [item])"

definition set_delete :: "'t \<Rightarrow> 't list \<Rightarrow> bool \<times> 't list" where
  "set_delete item vs = (item \<in> set vs, removeAll item vs)"

definition useSet :: "'t SetState" where
  "useSet = \<lparr>svalues = [], updated = 0\<rparr>"

definition forceUpdate :: "('t, 'm) SetState_scheme \<Rightarrow> ('t, 'm) SetState_scheme" where
  "forceUpdate st = st\<lparr>updated := updated st + 1\<rparr>"

definition add :: "'t list \<Rightarrow> 't \<Rightarrow> ('t, 'm) SetState_scheme \<Rightarrow> ('t, 'm) SetState_scheme" where
  "add items item st =
     (if item \<notin> set items then st
      else forceUpdate (st\<lparr>svalues := set_add item (svalues st)\<rparr>))"

definition has :: "'t \<Rightarrow> ('t, 'm) SetState_scheme \<Rightarrow> bool" where
  "has item st = (item \<in> set (svalues st))"

definition removeS :: "'t \<Rightarrow> ('t, 'm) SetState_scheme \<Rightarrow> ('t, 'm) SetState_scheme" where
  "removeS item st =
     (case set_delete item (svalues st) of
        (deleted, vs) \<Rightarrow>
          (if deleted then forceUpdate (st\<lparr>svalues := vs\<rparr>) else st\<lparr>svalues := vs\<rparr>))"

definition clear :: "('t, 'm) SetState_scheme \<Rightarrow> ('t, 'm) SetState_scheme" where
  "clear st = forceUpdate (st\<lparr>svalues := []\<rparr>)"

definition toggle :: "'t list \<Rightarrow> 't \<Rightarrow> ('t, 'm) SetState_scheme \<Rightarrow> ('t, 'm) SetState_scheme" where
  "toggle items item st = (if has item st then removeS item st else add items item st)"

text \<open>The loop of \<^verbatim>\<open>equals\<close>, with its early return.\<close>

fun equals_loop :: "'t list \<Rightarrow> ('t, 'm) SetState_scheme \<Rightarrow> bool" where
  "equals_loop [] st = True"
| "equals_loop (item # rest) st = (if \<not> has item st then False else equals_loop rest st)"

definition equals :: "'t list \<Rightarrow> ('t, 'm) SetState_scheme \<Rightarrow> bool" where
  "equals its st = (if length its \<noteq> length (svalues st) then False else equals_loop its st)"

section \<open>The selection controller: \<^verbatim>\<open>useSelect\<close>\<close>

text \<open>
  A projection is a field name or a function (\<^verbatim>\<open>string | ((item: T) => V)\<close>); a
  function supplied by the caller may throw.
\<close>

datatype proj = FieldName string | Function "jsval \<Rightarrow> err + jsval"

text \<open>The type \<^verbatim>\<open>V[] | V\<close> of \<^verbatim>\<open>selected\<close> and of the argument of \<^verbatim>\<open>setValues\<close>.\<close>

datatype sel = Val jsval | Arr "jsval list"

record SelectOptions =
  opt_items :: "jsval list"
  opt_multiple :: "bool option"
  opt_itemText :: "proj option"
  opt_itemValue :: "proj option"
  opt_cols :: "int option"

text \<open>What the closure of \<^verbatim>\<open>useSelect\<close> holds once constructed.\<close>

record Controller =
  items :: "jsval list"
  cols :: int
  multiple :: bool
  itemText :: proj
  itemValue :: proj
  itemMap :: "(jsval \<times> jsval) list"
  itemRows :: "jsval list list"

text \<open>
  The reactive state: the tracker's fields (\<^verbatim>\<open>...s\<close>), \<^verbatim>\<open>selected\<close> and
  \<^verbatim>\<open>selectedStr\<close>. \<^verbatim>\<open>selected\<close> is a \<^verbatim>\<open>ref\<close>: the field holds the raw value
  that was assigned, and a read of \<^verbatim>\<open>selected.value\<close> is \<open>read_selected\<close> below.
  \<open>watch_old\<close> is the bookkeeping of \<^verbatim>\<open>watch(s.updated, ...)\<close>: the value of
  \<^verbatim>\<open>s.updated\<close> the watcher has last seen. \<open>publish_queued\<close> says that the job of
  \<^verbatim>\<open>watch(s.selected, ...)\<close> of \<^verbatim>\<open>setupSelect\<close> (lines 223 to 225; the same in
  \<^verbatim>\<open>RenderlessSelect\<close>, lines 259 to 261) is queued, and \<open>emitted\<close> lists the
  arguments of its \<^verbatim>\<open>emit\<close> calls, the oldest first.
\<close>

record SelectState = "jsval SetState" +
  selected :: sel
  selectedStr :: string
  watch_old :: nat
  publish_queued :: bool
  emitted :: "sel list"

text \<open>
  A read of \<^verbatim>\<open>selected.value\<close>. The \<^verbatim>\<open>ref\<close> is a deep one: an object comes out as
  its reactive proxy, and so does every object element of an array.
\<close>

definition read_selected :: "SelectState \<Rightarrow> sel" where
  "read_selected st =
     (case selected st of
        Arr xs \<Rightarrow> Arr (map toReactive xs)
      | Val v \<Rightarrow> Val (toReactive v))"

text \<open>
  An assignment \<^verbatim>\<open>selected.value = new\<close>. The \<^verbatim>\<open>ref\<close> keeps the raw value and
  queues the jobs of its watchers when that differs from the raw value it held. The array
  that \<^verbatim>\<open>items.map(getValue)\<close> builds is a new object, which differs from every value
  held before.
\<close>

definition set_selected :: "sel \<Rightarrow> SelectState \<Rightarrow> SelectState" where
  "set_selected new st =
     (case new of
        Arr xs \<Rightarrow> st\<lparr>selected := Arr xs, publish_queued := True\<rparr>
      | Val v \<Rightarrow>
          (if selected st = Val (toRaw v) then st
           else st\<lparr>selected := Val (toRaw v), publish_queued := True\<rparr>))"

definition getValue :: "proj \<Rightarrow> jsval \<Rightarrow> err + jsval" where
  "getValue iv item =
     (case iv of Function f \<Rightarrow> f item | FieldName k \<Rightarrow> get_prop item k)"

definition getText :: "proj \<Rightarrow> jsval \<Rightarrow> err + jsval" where
  "getText it item =
     (case it of Function f \<Rightarrow> f item | FieldName k \<Rightarrow> get_prop item k)"

text \<open>
  \<^verbatim>\<open>new Map(pairs)\<close> keeps the last pair of a key; \<^verbatim>\<open>itemMap.get(v)\<close> is
  \<^verbatim>\<open>undefined\<close> when there is none.
\<close>

definition Map_get :: "(jsval \<times> jsval) list \<Rightarrow> jsval \<Rightarrow> jsval" where
  "Map_get m v = (case map_of (rev m) v of None \<Rightarrow> JUndefined | Some i \<Rightarrow> i)"

text \<open>
  Modelled from the spec: \<^verbatim>\<open>splitArray\<close> is imported from \<^verbatim>\<open>'..'\<close>, a file of the
  repository that is not among the sources. The spec: display rows are the
  ``Candidate List partitioned into fixed-size chunks (size = configured column count) in
  original order''; ``a \<^verbatim>\<open>cols\<close> of zero or negative is invalid input'' that ``fails fast
  at construction with a configuration error''; with ``cols=2 with 5 candidates'' there
  are ``3 rows, first two of size 2, last of size 1''.
\<close>

function chunks :: "nat \<Rightarrow> 'a list \<Rightarrow> 'a list list" where
  "chunks n xs = (if n = 0 \<or> xs = [] then [] else take n xs # chunks n (drop n xs))"
  by pat_completeness auto
termination
  by (relation "measure (\<lambda>(n, xs). length xs)") auto

declare chunks.simps [simp del]

text \<open>
  Modelled from the spec: \<^verbatim>\<open>splitArray(items, cols)\<close>, the missing function itself. A
  column count of zero or less is the configuration error of the spec's section 7;
  otherwise the rows are the chunks above.
\<close>

definition splitArray :: "'a list \<Rightarrow> int \<Rightarrow> err + 'a list list" where
  "splitArray arr chunkSize =
     (if chunkSize \<le> 0 then Inl ConfigurationError else Inr (chunks (nat chunkSize) arr))"

definition select :: "Controller \<Rightarrow> jsval \<Rightarrow> SelectState \<Rightarrow> SelectState" where
  "select c item st =
     (if multiple c then toggle (items c) item st
      else add (items c) item (clear st))"

text \<open>
  The controller's own \<^verbatim>\<open>has\<close>, on the derived view. On the array of a deep
  \<^verbatim>\<open>ref\<close>, \<^verbatim>\<open>includes\<close> searches the raw array for its argument and then for the
  raw value of its argument; in single mode \<^verbatim>\<open>===\<close> compares what the read hands out.
\<close>

definition has_selected :: "Controller \<Rightarrow> jsval \<Rightarrow> SelectState \<Rightarrow> err + bool" where
  "has_selected c item st =
     (if item = JNull then Inr False
      else (case getValue (itemValue c) item of
              Inl e \<Rightarrow> Inl e
            | Inr v \<Rightarrow>
                Inr (case selected st of
                       Arr xs \<Rightarrow> v \<in> set xs \<or> toRaw v \<in> set xs
                     | Val x \<Rightarrow> toReactive x = v)))"

definition setItems :: "Controller \<Rightarrow> jsval list \<Rightarrow> SelectState \<Rightarrow> SelectState" where
  "setItems c its st =
     (if equals its st then st
      else fold (select c) its (clear st))"

definition setValues :: "Controller \<Rightarrow> sel \<Rightarrow> SelectState \<Rightarrow> SelectState" where
  "setValues c vs st =
     (let vs' = (case vs of Arr xs \<Rightarrow> xs | Val v \<Rightarrow> [v]);
          its = filter truthy (map (Map_get (itemMap c)) vs')
      in setItems c its st)"

text \<open>
  The value of an item on which the value projection returns, as it does on every
  candidate of a constructed controller (line 170 has called it).
\<close>

definition valueOf :: "Controller \<Rightarrow> jsval \<Rightarrow> jsval" where
  "valueOf c i = (case getValue (itemValue c) i of Inl e \<Rightarrow> JUndefined | Inr v \<Rightarrow> v)"

text \<open>
  The item that the Value Index gives for the value of item \<open>i\<close> as a read of
  \<^verbatim>\<open>selected.value\<close> hands it out.
\<close>

definition read_back :: "Controller \<Rightarrow> jsval \<Rightarrow> jsval" where
  "read_back c i = Map_get (itemMap c) (toReactive (valueOf c i))"

text \<open>The items that \<^verbatim>\<open>setValues\<close> hands to \<^verbatim>\<open>setItems\<close> (its lines 181 and 182).\<close>

definition resolve :: "Controller \<Rightarrow> sel \<Rightarrow> jsval list" where
  "resolve c vs =
     filter truthy (map (Map_get (itemMap c)) (case vs of Arr xs \<Rightarrow> xs | Val v \<Rightarrow> [v]))"

text \<open>
  The callback of \<^verbatim>\<open>watch(s.updated, ...)\<close>. It assigns \<^verbatim>\<open>selected\<close>, then
  \<^verbatim>\<open>selectedStr\<close>; an exception leaves what was assigned before it. In single mode
  \<^verbatim>\<open>items[0]\<close> of an empty array is \<^verbatim>\<open>undefined\<close>.
\<close>

definition watch_updated :: "Controller \<Rightarrow> SelectState \<Rightarrow> SelectState \<times> err option" where
  "watch_updated c st =
     (let its = svalues st in
      case (if multiple c
            then (case mapE (getValue (itemValue c)) its of
                    Inl e \<Rightarrow> Inl e | Inr vs \<Rightarrow> Inr (Arr vs))
            else (case getValue (itemValue c) (case its of [] \<Rightarrow> JUndefined | i # _ \<Rightarrow> i) of
                    Inl e \<Rightarrow> Inl e | Inr v \<Rightarrow> Inr (Val v))) of
        Inl e \<Rightarrow> (st, Some e)
      | Inr s \<Rightarrow>
          (case mapE (getText (itemText c)) its of
             Inl e \<Rightarrow> (set_selected s st, Some e)
           | Inr ts \<Rightarrow> ((set_selected s st)\<lparr>selectedStr := join ts\<rparr>, None)))"

text \<open>
  The callback of \<^verbatim>\<open>watch(s.selected, ...)\<close> in \<^verbatim>\<open>setupSelect\<close>, run as the queued
  job: \<^verbatim>\<open>emit('update:model-value', s.selected.value)\<close>.
\<close>

definition watch_selected :: "SelectState \<Rightarrow> SelectState" where
  "watch_selected st =
     (if publish_queued st
      then st\<lparr>publish_queued := False, emitted := emitted st @ [read_selected st]\<rparr>
      else st)"

text \<open>
  The reactive runtime runs a watcher's callback after the synchronous code that changed
  its source has returned, once, and only when the source's value differs from the one
  the watcher saw last. An exception of the callback is caught by the runtime, which goes
  on with the jobs that are queued: here the job that the assignment to \<^verbatim>\<open>selected\<close>
  has queued, run in the same flush.
\<close>

definition flush :: "Controller \<Rightarrow> SelectState \<Rightarrow> SelectState" where
  "flush c st =
     (if updated st = watch_old st then st
      else watch_selected ((fst (watch_updated c st))\<lparr>watch_old := updated st\<rparr>))"

text \<open>
  The emptiness flag reads \<^verbatim>\<open>selected.value\<close> for its length and its truthiness, which
  are those of the raw value.
\<close>

definition isEmpty :: "Controller \<Rightarrow> SelectState \<Rightarrow> bool" where
  "isEmpty c st =
     (if multiple c
      then (case selected st of Arr xs \<Rightarrow> length xs = 0 | Val v \<Rightarrow> True)
      else (case selected st of Arr xs \<Rightarrow> True | Val v \<Rightarrow> truthy v))"

text \<open>The state right after construction.\<close>

definition init_state :: "bool \<Rightarrow> SelectState" where
  "init_state mult =
     SetState.extend (useSet :: jsval SetState)
       (SelectState.fields (if mult then Arr [] else Val JNull) [] 0 False [])"

text \<open>
  \<^verbatim>\<open>useSelect\<close>: the defaults of the destructuring, the value index (line 170, which
  calls \<^verbatim>\<open>getValue\<close> on every candidate), then the rows (line 203).
\<close>

definition useSelect :: "SelectOptions \<Rightarrow> err + Controller \<times> SelectState" where
  "useSelect options =
     (let its = opt_items options;
          cs = (case opt_cols options of None \<Rightarrow> 1 | Some n \<Rightarrow> n);
          mult = (case opt_multiple options of None \<Rightarrow> False | Some b \<Rightarrow> b);
          txt = (case opt_itemText options of None \<Rightarrow> FieldName ''text'' | Some p \<Rightarrow> p);
          val = (case opt_itemValue options of None \<Rightarrow> FieldName ''value'' | Some p \<Rightarrow> p)
      in case mapE (getValue val) its of
           Inl e \<Rightarrow> Inl e
         | Inr vs \<Rightarrow>
             (case splitArray its cs of
                Inl e \<Rightarrow> Inl e
              | Inr rows \<Rightarrow>
                  Inr (\<lparr>items = its, cols = cs, multiple = mult, itemText = txt,
                        itemValue = val, itemMap = zip vs its, itemRows = rows\<rparr>,
                       init_state mult)))"

section \<open>Sequences of calls\<close>

text \<open>
  The calls of the public operations, and \<open>Flush\<close> for a run of the queued watchers
  between two calls. The watcher of the external model value (lines 227 to 235 and 263 to
  271) calls \<^verbatim>\<open>setValues\<close> with a truthy value: in a sequence it is a \<open>SetValues\<close>.
\<close>

datatype op =
    Add jsval
  | Remove jsval
  | Toggle jsval
  | Clear
  | Select jsval
  | SetItems "jsval list"
  | SetValues sel
  | Flush

fun apply_op :: "Controller \<Rightarrow> op \<Rightarrow> SelectState \<Rightarrow> SelectState" where
  "apply_op c (Add i) st = add (items c) i st"
| "apply_op c (Remove i) st = removeS i st"
| "apply_op c (Toggle i) st = toggle (items c) i st"
| "apply_op c Clear st = clear st"
| "apply_op c (Select i) st = select c i st"
| "apply_op c (SetItems its) st = setItems c its st"
| "apply_op c (SetValues vs) st = setValues c vs st"
| "apply_op c Flush st = flush c st"

definition run :: "Controller \<Rightarrow> op list \<Rightarrow> SelectState \<Rightarrow> SelectState" where
  "run c ops st = fold (apply_op c) ops st"


section \<open>Example controllers\<close>

text \<open>
  The candidates \<^verbatim>\<open>[{value:1,text:"a"},{value:2,text:"b"}]\<close>, with the default field
  names as projections and the default column count.
\<close>

definition cand_a :: jsval where
  "cand_a = JObj 1 [(''value'', JNum 1), (''text'', JStr ''a'')]"

definition cand_b :: jsval where
  "cand_b = JObj 2 [(''value'', JNum 2), (''text'', JStr ''b'')]"

definition example_options :: "bool \<Rightarrow> SelectOptions" where
  "example_options m =
     \<lparr>opt_items = [cand_a, cand_b], opt_multiple = Some m, opt_itemText = None,
      opt_itemValue = None, opt_cols = None\<rparr>"

definition example_controller :: "bool \<Rightarrow> Controller" where
  "example_controller m =
     \<lparr>items = [cand_a, cand_b], cols = 1, multiple = m, itemText = FieldName ''text'',
      itemValue = FieldName ''value'',
      itemMap = [(JNum 1, cand_a), (JNum 2, cand_b)],
      itemRows = [[cand_a], [cand_b]]\<rparr>"

text \<open>
  Candidates that are primitives, with the identity as both projections: the candidate
  \<open>0\<close> is a falsy item.
\<close>

definition falsy_options :: SelectOptions where
  "falsy_options =
     \<lparr>opt_items = [JNum 0, JNum 5], opt_multiple = Some True,
      opt_itemText = Some (Function (\<lambda>i. Inr i)), opt_itemValue = Some (Function (\<lambda>i. Inr i)),
      opt_cols = None\<rparr>"

definition falsy_controller :: Controller where
  "falsy_controller =
     \<lparr>items = [JNum 0, JNum 5], cols = 1, multiple = True,
      itemText = Function (\<lambda>i. Inr i), itemValue = Function (\<lambda>i. Inr i),
      itemMap = [(JNum 0, JNum 0), (JNum 5, JNum 5)],
      itemRows = [[JNum 0], [JNum 5]]\<rparr>"

text \<open>Two distinct candidates that project to the same value \<open>1\<close>.\<close>

definition twin_a :: jsval where
  "twin_a = JObj 1 [(''value'', JNum 1), (''text'', JStr ''a'')]"

definition twin_b :: jsval where
  "twin_b = JObj 2 [(''value'', JNum 1), (''text'', JStr ''b'')]"

definition twin_options :: SelectOptions where
  "twin_options =
     \<lparr>opt_items = [twin_a, twin_b], opt_multiple = Some True, opt_itemText = None,
      opt_itemValue = None, opt_cols = None\<rparr>"

definition twin_controller :: Controller where
  "twin_controller =
     \<lparr>items = [twin_a, twin_b], cols = 1, multiple = True, itemText = FieldName ''text'',
      itemValue = FieldName ''value'',
      itemMap = [(JNum 1, twin_a), (JNum 1, twin_b)],
      itemRows = [[twin_a], [twin_b]]\<rparr>"

text \<open>
  Candidates \<^verbatim>\<open>[{text:"a"},{text:"b"}]\<close> whose value is the item itself
  (\<^verbatim>\<open>itemValue: (i) => i\<close>): the values are objects.
\<close>

definition obj_a :: jsval where
  "obj_a = JObj 1 [(''text'', JStr ''a'')]"

definition obj_b :: jsval where
  "obj_b = JObj 2 [(''text'', JStr ''b'')]"

definition object_options :: SelectOptions where
  "object_options =
     \<lparr>opt_items = [obj_a, obj_b], opt_multiple = Some True, opt_itemText = None,
      opt_itemValue = Some (Function (\<lambda>i. Inr i)), opt_cols = None\<rparr>"

definition object_controller :: Controller where
  "object_controller =
     \<lparr>items = [obj_a, obj_b], cols = 1, multiple = True, itemText = FieldName ''text'',
      itemValue = Function (\<lambda>i. Inr i),
      itemMap = [(obj_a, obj_a), (obj_b, obj_b)],
      itemRows = [[obj_a], [obj_b]]\<rparr>"

text \<open>A configuration with a candidate \<^verbatim>\<open>undefined\<close> and a column count of zero.\<close>

definition undefined_item_options :: SelectOptions where
  "undefined_item_options =
     \<lparr>opt_items = [JUndefined], opt_multiple = None, opt_itemText = None,
      opt_itemValue = None, opt_cols = Some 0\<rparr>"

section \<open>Facts about the tracker\<close>

lemma svalues_forceUpdate [simp]: "svalues (forceUpdate st) = svalues st"
  by (simp add: forceUpdate_def)

lemma updated_forceUpdate [simp]: "updated (forceUpdate st) = updated st + 1"
  by (simp add: forceUpdate_def)

lemma svalues_add:
  "svalues (add its i st) = (if i \<in> set its then set_add i (svalues st) else svalues st)"
  by (simp add: add_def)

lemma updated_add:
  "updated (add its i st) = (if i \<in> set its then updated st + 1 else updated st)"
  by (simp add: add_def)

lemma svalues_removeS: "svalues (removeS i st) = removeAll i (svalues st)"
  by (simp add: removeS_def set_delete_def)

lemma updated_removeS:
  "updated (removeS i st) = (if i \<in> set (svalues st) then updated st + 1 else updated st)"
  by (simp add: removeS_def set_delete_def)

lemma svalues_clear: "svalues (clear st) = []"
  by (simp add: clear_def)

lemma updated_clear: "updated (clear st) = updated st + 1"
  by (simp add: clear_def)

lemma removeAll_changes: "(removeAll i vs \<noteq> vs) = (i \<in> set vs)"
proof
  assume "removeAll i vs \<noteq> vs"
  then show "i \<in> set vs" by (rule contrapos_np) simp
next
  assume "i \<in> set vs"
  then have "set (removeAll i vs) \<noteq> set vs" by auto
  then show "removeAll i vs \<noteq> vs" by metis
qed

lemma set_add_changes: "(set_add i vs \<noteq> vs) = (i \<notin> set vs)"
  by (simp add: set_add_def)

lemma removeS_absent: "i \<notin> set (svalues st) \<Longrightarrow> removeS i st = st"
  by (simp add: removeS_def set_delete_def)

lemma equals_loop_iff: "equals_loop its st = (set its \<subseteq> set (svalues st))"
  by (induction its) (auto simp: has_def)

lemma equals_iff:
  "equals its st = (length its = length (svalues st) \<and> set its \<subseteq> set (svalues st))"
  by (simp add: equals_def equals_loop_iff)

section \<open>Change counter and mutation (C2)\<close>

text \<open>
  C2, as the claim states it, fails: \<^verbatim>\<open>add\<close> of a candidate that is already selected
  leaves the selection as it is and still increments the counter, and a second
  \<^verbatim>\<open>clear()\<close> in a row, on the empty selection, increments it again.
\<close>

theorem tracker_bumps_counterexample:
  "svalues (add [1::nat] 1 (add [1] 1 useSet)) = svalues (add [1::nat] 1 useSet)
   \<and> updated (add [1::nat] 1 (add [1] 1 useSet)) = updated (add [1::nat] 1 useSet) + 1
   \<and> svalues (clear (clear (useSet :: nat SetState))) = svalues (clear (useSet :: nat SetState))
   \<and> updated (clear (clear (useSet :: nat SetState))) = updated (useSet :: nat SetState) + 2"
  by (simp add: add_def clear_def useSet_def set_add_def forceUpdate_def)

text \<open>
  C2, amended: \<^verbatim>\<open>add(item)\<close> increments the counter exactly once iff the item is a
  candidate (whether or not it was selected already), and changes the selection iff the
  item is a candidate that was not selected; \<^verbatim>\<open>remove(item)\<close> increments it exactly
  once iff the item was selected, which is when it changes the selection;
  \<^verbatim>\<open>clear()\<close> always increments it exactly once, and changes the selection iff it
  was not empty; \<^verbatim>\<open>toggle(item)\<close> increments it exactly once iff the item was
  selected or is a candidate, which is when it changes the selection.
\<close>

theorem tracker_bumps:
  "updated (add its i st) = updated st + (if i \<in> set its then 1 else 0)
   \<and> (svalues (add its i st) \<noteq> svalues st) = (i \<in> set its \<and> i \<notin> set (svalues st))
   \<and> updated (removeS i st) = updated st + (if i \<in> set (svalues st) then 1 else 0)
   \<and> (svalues (removeS i st) \<noteq> svalues st) = (i \<in> set (svalues st))
   \<and> updated (clear st) = updated st + 1
   \<and> (svalues (clear st) \<noteq> svalues st) = (svalues st \<noteq> [])
   \<and> updated (toggle its i st)
       = updated st + (if i \<in> set (svalues st) \<or> i \<in> set its then 1 else 0)
   \<and> (svalues (toggle its i st) \<noteq> svalues st) = (i \<in> set (svalues st) \<or> i \<in> set its)"
proof -
  have a: "updated (add its i st) = updated st + (if i \<in> set its then 1 else 0)"
    by (simp add: updated_add)
  have a': "(svalues (add its i st) \<noteq> svalues st) = (i \<in> set its \<and> i \<notin> set (svalues st))"
    by (simp add: svalues_add set_add_changes)
  have r: "updated (removeS i st) = updated st + (if i \<in> set (svalues st) then 1 else 0)"
    by (simp add: updated_removeS)
  have r': "(svalues (removeS i st) \<noteq> svalues st) = (i \<in> set (svalues st))"
    by (simp add: svalues_removeS removeAll_changes)
  have c: "updated (clear st) = updated st + 1"
    by (simp add: updated_clear)
  have c': "(svalues (clear st) \<noteq> svalues st) = (svalues st \<noteq> [])"
    by (auto simp: svalues_clear)
  have t: "updated (toggle its i st)
           = updated st + (if i \<in> set (svalues st) \<or> i \<in> set its then 1 else 0)"
    by (simp add: toggle_def has_def updated_add updated_removeS)
  have t': "(svalues (toggle its i st) \<noteq> svalues st) = (i \<in> set (svalues st) \<or> i \<in> set its)"
    by (simp add: toggle_def has_def svalues_add svalues_removeS removeAll_changes
        set_add_changes)
  from a a' r r' c c' t t' show ?thesis by blast
qed

section \<open>\<^verbatim>\<open>equals\<close> (C6)\<close>

text \<open>
  C6, as the claim states it, fails on a list with a duplicate: with \<open>1\<close> and \<open>2\<close>
  added to the empty selection, \<^verbatim>\<open>equals([1, 1])\<close> is true (two elements, both selected), while the set of
  its elements is not the selection.
\<close>

theorem equals_duplicates_counterexample:
  "svalues (add [1::nat, 2] 2 (add [1, 2] 1 useSet)) = [1, 2]
   \<and> equals [1::nat, 1] (add [1, 2] 2 (add [1, 2] 1 useSet))
   \<and> set [1::nat, 1] \<noteq> set (svalues (add [1::nat, 2] 2 (add [1, 2] 1 useSet)))"
  by (simp add: equals_def has_def svalues_add set_add_def useSet_def)

text \<open>
  C6, amended: for every list \<open>its\<close> without duplicates, \<^verbatim>\<open>equals(its)\<close> is true iff
  the set of its elements is exactly the Selection Set (the selection, a JavaScript
  \<^verbatim>\<open>Set\<close>, holds no element twice).
\<close>

theorem equals_distinct:
  assumes "distinct its" and "distinct (svalues st)"
  shows "equals its st = (set its = set (svalues st))"
proof
  assume e: "equals its st"
  then have l: "length its = length (svalues st)" and s: "set its \<subseteq> set (svalues st)"
    by (simp_all add: equals_iff)
  from assms l have "card (set its) = card (set (svalues st))"
    by (simp add: distinct_card)
  with s show "set its = set (svalues st)"
    by (simp add: card_subset_eq)
next
  assume s: "set its = set (svalues st)"
  with assms have "length its = length (svalues st)"
    by (metis distinct_card)
  with s show "equals its st" by (simp add: equals_iff)
qed

text \<open>
  The amended C6 at the list \<open>[2, 1]\<close>, with \<open>1\<close> and then \<open>2\<close> added to the empty
  selection.
\<close>

theorem equals_distinct_witness:
  "distinct [2::nat, 1] \<and> distinct (svalues (add [1::nat, 2] 2 (add [1, 2] 1 useSet)))
   \<and> equals [2::nat, 1] (add [1, 2] 2 (add [1, 2] 1 useSet))
   \<and> set [2::nat, 1] = set (svalues (add [1::nat, 2] 2 (add [1, 2] 1 useSet)))"
  using equals_distinct [of "[2::nat, 1]" "add [1::nat, 2] 2 (add [1, 2] 1 useSet)"]
  by (auto simp: svalues_add set_add_def useSet_def)

section \<open>Facts about the controller\<close>

lemma init_state_simps [simp]:
  "svalues (init_state m) = []" "updated (init_state m) = 0"
  "selected (init_state m) = (if m then Arr [] else Val JNull)"
  "selectedStr (init_state m) = []" "watch_old (init_state m) = 0"
  "publish_queued (init_state m) = False" "emitted (init_state m) = []"
  by (simp_all add: init_state_def useSet_def SetState.defs SelectState.defs)

lemma example_controller_simps [simp]:
  "items (example_controller m) = [cand_a, cand_b]"
  "multiple (example_controller m) = m"
  "itemValue (example_controller m) = FieldName ''value''"
  "itemText (example_controller m) = FieldName ''text''"
  "itemMap (example_controller m) = [(JNum 1, cand_a), (JNum 2, cand_b)]"
  by (simp_all add: example_controller_def)

lemma svalues_toggle:
  "svalues (toggle its i st) =
     (if i \<in> set (svalues st) then removeAll i (svalues st)
      else if i \<in> set its then svalues st @ [i] else svalues st)"
  by (simp add: toggle_def has_def svalues_add svalues_removeS set_add_def)

lemma updated_toggle:
  "updated (toggle its i st) =
     (if i \<in> set (svalues st) \<or> i \<in> set its then updated st + 1 else updated st)"
  by (simp add: toggle_def has_def updated_add updated_removeS)

lemma svalues_select:
  "svalues (select c i st) =
     (if multiple c then svalues (toggle (items c) i st)
      else if i \<in> set (items c) then [i] else [])"
  by (simp add: select_def svalues_add svalues_clear set_add_def)

lemma updated_select:
  "updated (select c i st) =
     (if multiple c then updated (toggle (items c) i st)
      else if i \<in> set (items c) then updated st + 2 else updated st + 1)"
  by (simp add: select_def updated_add updated_clear)

lemma derived_add [simp]:
  "selected (add its i st) = selected st" "selectedStr (add its i st) = selectedStr st"
  "watch_old (add its i st) = watch_old st"
  "publish_queued (add its i st) = publish_queued st" "emitted (add its i st) = emitted st"
  by (simp_all add: add_def forceUpdate_def)

lemma derived_removeS [simp]:
  "selected (removeS i st) = selected st" "selectedStr (removeS i st) = selectedStr st"
  "watch_old (removeS i st) = watch_old st"
  "publish_queued (removeS i st) = publish_queued st" "emitted (removeS i st) = emitted st"
  by (simp_all add: removeS_def set_delete_def forceUpdate_def)

lemma derived_clear [simp]:
  "selected (clear st) = selected st" "selectedStr (clear st) = selectedStr st"
  "watch_old (clear st) = watch_old st"
  "publish_queued (clear st) = publish_queued st" "emitted (clear st) = emitted st"
  by (simp_all add: clear_def forceUpdate_def)

lemma derived_toggle [simp]:
  "selected (toggle its i st) = selected st" "selectedStr (toggle its i st) = selectedStr st"
  "watch_old (toggle its i st) = watch_old st"
  "publish_queued (toggle its i st) = publish_queued st" "emitted (toggle its i st) = emitted st"
  by (simp_all add: toggle_def)

lemma derived_select [simp]:
  "selected (select c i st) = selected st" "selectedStr (select c i st) = selectedStr st"
  "watch_old (select c i st) = watch_old st"
  "publish_queued (select c i st) = publish_queued st" "emitted (select c i st) = emitted st"
  by (simp_all add: select_def)

lemma derived_fold_select [simp]:
  "selected (fold (select c) its st) = selected st"
  "selectedStr (fold (select c) its st) = selectedStr st"
  "watch_old (fold (select c) its st) = watch_old st"
  "publish_queued (fold (select c) its st) = publish_queued st"
  "emitted (fold (select c) its st) = emitted st"
  by (induction its arbitrary: st) simp_all

lemma derived_setItems [simp]:
  "selected (setItems c its st) = selected st"
  "selectedStr (setItems c its st) = selectedStr st"
  "watch_old (setItems c its st) = watch_old st"
  "publish_queued (setItems c its st) = publish_queued st"
  "emitted (setItems c its st) = emitted st"
  by (simp_all add: setItems_def)

lemma derived_setValues [simp]:
  "selected (setValues c vs st) = selected st"
  "selectedStr (setValues c vs st) = selectedStr st"
  "watch_old (setValues c vs st) = watch_old st"
  "publish_queued (setValues c vs st) = publish_queued st"
  "emitted (setValues c vs st) = emitted st"
  by (simp_all add: setValues_def Let_def)

lemma chunks_Nil [simp]: "chunks n [] = []"
  by (simp add: chunks.simps)

lemma chunks_Cons: "0 < n \<Longrightarrow> chunks n (x # xs) = take n (x # xs) # chunks n (drop n (x # xs))"
  by (subst chunks.simps) simp

lemma useSelect_example: "useSelect (example_options m) = Inr (example_controller m, init_state m)"
  by (simp add: useSelect_def example_options_def example_controller_def getValue_def
      splitArray_def chunks_Cons cand_a_def cand_b_def)

lemma falsy_controller_simps [simp]:
  "items falsy_controller = [JNum 0, JNum 5]"
  "multiple falsy_controller = True"
  "itemValue falsy_controller = Function (\<lambda>i. Inr i)"
  "itemText falsy_controller = Function (\<lambda>i. Inr i)"
  "itemMap falsy_controller = [(JNum 0, JNum 0), (JNum 5, JNum 5)]"
  by (simp_all add: falsy_controller_def)

lemma useSelect_falsy: "useSelect falsy_options = Inr (falsy_controller, init_state True)"
  by (simp add: useSelect_def falsy_options_def falsy_controller_def getValue_def
      splitArray_def chunks_Cons Let_def)

lemma resolve_drop:
  "\<not> truthy (Map_get (itemMap c) v) \<Longrightarrow> resolve c (Arr (xs @ v # ys)) = resolve c (Arr (xs @ ys))"
  by (simp add: resolve_def)

lemma twin_controller_simps [simp]:
  "items twin_controller = [twin_a, twin_b]"
  "multiple twin_controller = True"
  "itemValue twin_controller = FieldName ''value''"
  "itemText twin_controller = FieldName ''text''"
  "itemMap twin_controller = [(JNum 1, twin_a), (JNum 1, twin_b)]"
  by (simp_all add: twin_controller_def)

lemma object_controller_simps [simp]:
  "items object_controller = [obj_a, obj_b]"
  "multiple object_controller = True"
  "itemValue object_controller = Function (\<lambda>i. Inr i)"
  "itemText object_controller = FieldName ''text''"
  "itemMap object_controller = [(obj_a, obj_a), (obj_b, obj_b)]"
  by (simp_all add: object_controller_def)

lemma useSelect_object: "useSelect object_options = Inr (object_controller, init_state True)"
  by (simp add: useSelect_def object_options_def object_controller_def getValue_def
      splitArray_def chunks_Cons Let_def)

lemma useSelect_twin: "useSelect twin_options = Inr (twin_controller, init_state True)"
  by (simp add: useSelect_def twin_options_def twin_controller_def getValue_def
      splitArray_def chunks_Cons twin_a_def twin_b_def)

section \<open>Items outside the Candidate List (C3)\<close>

text \<open>
  C3, as the claim states it, fails for \<^verbatim>\<open>select\<close> in single mode: with \<^verbatim>\<open>cand_a\<close>
  selected, \<^verbatim>\<open>select(7)\<close> of the non-candidate \<open>7\<close> runs \<^verbatim>\<open>s.clear()\<close> first, which
  empties the selection and increments the counter.
\<close>

theorem select_noncandidate_counterexample:
  "JNum 7 \<notin> set (items (example_controller False))
   \<and> svalues (select (example_controller False) cand_a (init_state False)) = [cand_a]
   \<and> svalues (select (example_controller False) (JNum 7)
        (select (example_controller False) cand_a (init_state False))) = []
   \<and> updated (select (example_controller False) (JNum 7)
        (select (example_controller False) cand_a (init_state False)))
      = updated (select (example_controller False) cand_a (init_state False)) + 1"
  by (simp add: svalues_select updated_select cand_a_def cand_b_def)

text \<open>
  C3, amended: in a state whose Selection Set lies within the Candidate List, for every
  item that is not a candidate, \<^verbatim>\<open>add(item)\<close>, \<^verbatim>\<open>remove(item)\<close> and
  \<^verbatim>\<open>toggle(item)\<close> leave the whole state as it is (no change of the Selection Set, no
  increment of the counter), and so does \<^verbatim>\<open>select(item)\<close> in multiple mode; in single
  mode \<^verbatim>\<open>select(item)\<close> does what \<^verbatim>\<open>clear()\<close> does.
\<close>

theorem noncandidate_ignored:
  assumes "i \<notin> set (items c)" and "set (svalues st) \<subseteq> set (items c)"
  shows "add (items c) i st = st \<and> removeS i st = st \<and> toggle (items c) i st = st
         \<and> select c i st = (if multiple c then st else clear st)"
proof -
  from assms have absent: "i \<notin> set (svalues st)" by blast
  have a: "add (items c) i st = st" using assms(1) by (simp add: add_def)
  have r: "removeS i st = st" using absent by (rule removeS_absent)
  have t: "toggle (items c) i st = st" using absent a by (simp add: toggle_def has_def)
  have s: "select c i st = (if multiple c then st else clear st)"
    using t assms(1) by (simp add: select_def add_def)
  from a r t s show ?thesis by blast
qed

text \<open>The amended C3 at the non-candidate \<open>7\<close>, in single mode with \<^verbatim>\<open>cand_a\<close> selected.\<close>

theorem noncandidate_ignored_witness:
  "JNum 7 \<notin> set (items (example_controller False))
   \<and> set (svalues (select (example_controller False) cand_a (init_state False)))
        \<subseteq> set (items (example_controller False))
   \<and> removeS (JNum 7) (select (example_controller False) cand_a (init_state False))
        = select (example_controller False) cand_a (init_state False)
   \<and> select (example_controller False) (JNum 7)
          (select (example_controller False) cand_a (init_state False))
        = clear (select (example_controller False) cand_a (init_state False))"
  using noncandidate_ignored [of "JNum 7" "example_controller False"
      "select (example_controller False) cand_a (init_state False)"]
  by (simp add: svalues_select cand_a_def cand_b_def)

section \<open>The Selection Set stays within the Candidate List (C9)\<close>

lemma select_preserves:
  "set (svalues st) \<subseteq> set (items c) \<Longrightarrow> set (svalues (select c i st)) \<subseteq> set (items c)"
  by (auto simp: svalues_select svalues_toggle)

lemma fold_select_preserves:
  "set (svalues st) \<subseteq> set (items c) \<Longrightarrow> set (svalues (fold (select c) its st)) \<subseteq> set (items c)"
proof (induction its arbitrary: st)
  case Nil
  then show ?case by simp
next
  case (Cons i its)
  from Cons.prems have "set (svalues (select c i st)) \<subseteq> set (items c)"
    by (rule select_preserves)
  then show ?case by (simp add: Cons.IH)
qed

lemma setItems_preserves:
  "set (svalues st) \<subseteq> set (items c) \<Longrightarrow> set (svalues (setItems c its st)) \<subseteq> set (items c)"
  by (simp add: setItems_def fold_select_preserves svalues_clear)

lemma setValues_preserves:
  "set (svalues st) \<subseteq> set (items c) \<Longrightarrow> set (svalues (setValues c vs st)) \<subseteq> set (items c)"
  by (simp add: setValues_def Let_def setItems_preserves)

lemma set_selected_tracker [simp]:
  "svalues (set_selected s st) = svalues st" "updated (set_selected s st) = updated st"
  "watch_old (set_selected s st) = watch_old st"
  "selectedStr (set_selected s st) = selectedStr st"
  "emitted (set_selected s st) = emitted st"
  by (simp_all add: set_selected_def split: sel.splits)

lemma selected_set_selected [simp]:
  "selected (set_selected s st) = (case s of Arr xs \<Rightarrow> Arr xs | Val v \<Rightarrow> Val (toRaw v))"
  by (simp add: set_selected_def split: sel.splits)


lemma watch_selected_tracker [simp]:
  "svalues (watch_selected st) = svalues st" "updated (watch_selected st) = updated st"
  "watch_old (watch_selected st) = watch_old st" "selected (watch_selected st) = selected st"
  "selectedStr (watch_selected st) = selectedStr st"
  "publish_queued (watch_selected st) = False"
  by (simp_all add: watch_selected_def)

lemma watch_updated_tracker [simp]:
  "svalues (fst (watch_updated c st)) = svalues st"
  "updated (fst (watch_updated c st)) = updated st"
  "watch_old (fst (watch_updated c st)) = watch_old st"
  "emitted (fst (watch_updated c st)) = emitted st"
  by (simp_all add: watch_updated_def Let_def split: sum.splits)

lemma flush_tracker [simp]:
  "svalues (flush c st) = svalues st" "updated (flush c st) = updated st"
  by (simp_all add: flush_def)

lemma apply_op_preserves:
  "set (svalues st) \<subseteq> set (items c) \<Longrightarrow> set (svalues (apply_op c x st)) \<subseteq> set (items c)"
proof (cases x)
  case (Add i)
  assume "set (svalues st) \<subseteq> set (items c)"
  then show ?thesis using Add by (auto simp: svalues_add set_add_def)
next
  case (Remove i)
  assume "set (svalues st) \<subseteq> set (items c)"
  then show ?thesis using Remove by (auto simp: svalues_removeS)
next
  case (Toggle i)
  assume "set (svalues st) \<subseteq> set (items c)"
  then show ?thesis using Toggle by (auto simp: svalues_toggle)
next
  case Clear
  then show ?thesis by (simp add: svalues_clear)
next
  case (Select i)
  assume "set (svalues st) \<subseteq> set (items c)"
  then show ?thesis using Select by (simp add: select_preserves)
next
  case (SetItems its)
  assume "set (svalues st) \<subseteq> set (items c)"
  then show ?thesis using SetItems by (simp add: setItems_preserves)
next
  case (SetValues vs)
  assume "set (svalues st) \<subseteq> set (items c)"
  then show ?thesis using SetValues by (simp add: setValues_preserves)
next
  case Flush
  assume "set (svalues st) \<subseteq> set (items c)"
  then show ?thesis using Flush by simp
qed

lemma run_preserves:
  "set (svalues st) \<subseteq> set (items c) \<Longrightarrow> set (svalues (run c ops st)) \<subseteq> set (items c)"
  unfolding run_def
proof (induction ops arbitrary: st)
  case Nil
  then show ?case by simp
next
  case (Cons x ops)
  from Cons.prems have "set (svalues (apply_op c x st)) \<subseteq> set (items c)"
    by (rule apply_op_preserves)
  then show ?case by (simp add: Cons.IH)
qed

text \<open>The list that stands for the \<^verbatim>\<open>Set\<close> never holds an element twice.\<close>

lemma select_distinct: "distinct (svalues st) \<Longrightarrow> distinct (svalues (select c i st))"
  by (simp add: svalues_select svalues_toggle distinct_removeAll)

lemma fold_select_distinct:
  "distinct (svalues st) \<Longrightarrow> distinct (svalues (fold (select c) its st))"
proof (induction its arbitrary: st)
  case Nil
  then show ?case by simp
next
  case (Cons i its)
  from Cons.prems have "distinct (svalues (select c i st))"
    by (rule select_distinct)
  then show ?case by (simp add: Cons.IH)
qed

lemma apply_op_distinct:
  "distinct (svalues st) \<Longrightarrow> distinct (svalues (apply_op c x st))"
  by (cases x)
    (simp_all add: svalues_add set_add_def svalues_removeS distinct_removeAll svalues_toggle
      svalues_clear select_distinct setItems_def setValues_def Let_def fold_select_distinct)

lemma run_distinct: "distinct (svalues (run c ops (init_state m)))"
proof -
  have "distinct (svalues st) \<Longrightarrow> distinct (svalues (fold (apply_op c) ops st))" for st
  proof (induction ops arbitrary: st)
    case Nil
    then show ?case by simp
  next
    case (Cons x ops)
    from Cons.prems have "distinct (svalues (apply_op c x st))"
      by (rule apply_op_distinct)
    then show ?case by (simp add: Cons.IH)
  qed
  then show ?thesis by (simp add: run_def)
qed

text \<open>
  C9: after every finite sequence of \<^verbatim>\<open>add\<close>, \<^verbatim>\<open>remove\<close>, \<^verbatim>\<open>toggle\<close>,
  \<^verbatim>\<open>clear\<close>, \<^verbatim>\<open>select\<close>, \<^verbatim>\<open>setItems\<close> and \<^verbatim>\<open>setValues\<close> calls (and
  runs of the watcher in between) from the state right after construction, every member of
  the Selection Set is a member of the Candidate List.
\<close>

theorem selection_within_candidates:
  "set (svalues (run c ops (init_state (multiple c)))) \<subseteq> set (items c)"
proof -
  have "set (svalues (init_state (multiple c))) \<subseteq> set (items c)"
    by simp
  then show ?thesis
    by (rule run_preserves)
qed

section \<open>Increments of the counter within one call\<close>

lemma updated_select_bounds:
  "updated st \<le> updated (select c i st)
   \<and> updated (select c i st) \<le> updated st + (if multiple c then 1 else 2)"
  by (simp add: updated_select updated_toggle)

lemma updated_fold_select:
  "updated st \<le> updated (fold (select c) its st)
   \<and> updated (fold (select c) its st) \<le> updated st + (if multiple c then 1 else 2) * length its"
proof (induction its arbitrary: st)
  case Nil
  then show ?case by simp
next
  case (Cons i its)
  have s: "updated st \<le> updated (select c i st)
           \<and> updated (select c i st) \<le> updated st + (if multiple c then 1 else 2)"
    by (rule updated_select_bounds)
  have f: "updated (select c i st) \<le> updated (fold (select c) its (select c i st))
           \<and> updated (fold (select c) its (select c i st))
               \<le> updated (select c i st) + (if multiple c then 1 else 2) * length its"
    by (rule Cons.IH)
  from s f show ?case by (auto split: if_splits)
qed

lemma updated_setItems:
  "(if equals its st then setItems c its st = st
    else updated st + 1 \<le> updated (setItems c its st)
         \<and> updated (setItems c its st)
             \<le> updated st + 1 + (if multiple c then 1 else 2) * length its)"
proof (cases "equals its st")
  case True
  then show ?thesis by (simp add: setItems_def)
next
  case False
  have "updated (clear st) \<le> updated (fold (select c) its (clear st))
        \<and> updated (fold (select c) its (clear st))
            \<le> updated (clear st) + (if multiple c then 1 else 2) * length its"
    by (rule updated_fold_select)
  with False show ?thesis by (simp add: setItems_def updated_clear)
qed

lemma setValues_resolve: "setValues c vs st = setItems c (resolve c vs) st"
  by (simp add: setValues_def resolve_def Let_def)



section \<open>The emptiness flag (C1)\<close>

text \<open>
  C1 at the failing input: the controller of \<^verbatim>\<open>example_options\<close> in single mode. Right
  after construction nothing is selected and \<^verbatim>\<open>selected\<close> is \<^verbatim>\<open>null\<close>, yet
  \<^verbatim>\<open>isEmpty\<close> is false; after \<^verbatim>\<open>select(cand_a)\<close> and the run of the watcher one
  item is selected, \<^verbatim>\<open>selected\<close> is \<open>1\<close>, and \<^verbatim>\<open>isEmpty\<close> is true. The single-mode
  branch \<^verbatim>\<open>!!selected.value\<close> is the negation of what the flag means.
\<close>

theorem isEmpty_single_inverted:
  "useSelect (example_options False) = Inr (example_controller False, init_state False)
   \<and> svalues (init_state False) = []
   \<and> selected (init_state False) = Val JNull
   \<and> isEmpty (example_controller False) (init_state False) = False
   \<and> svalues (run (example_controller False) [Select cand_a, Flush] (init_state False)) = [cand_a]
   \<and> selected (run (example_controller False) [Select cand_a, Flush] (init_state False)) = Val (JNum 1)
   \<and> isEmpty (example_controller False)
        (run (example_controller False) [Select cand_a, Flush] (init_state False)) = True"
proof -
  have sv: "svalues (run (example_controller False) [Select cand_a, Flush] (init_state False)) = [cand_a]"
    by (simp add: run_def svalues_select)
  have sel: "selected (run (example_controller False) [Select cand_a, Flush] (init_state False)) = Val (JNum 1)"
    by (simp add: run_def flush_def updated_select watch_updated_def svalues_select
        getValue_def getText_def cand_a_def)
  have e0: "isEmpty (example_controller False) (init_state False) = False"
    by (simp add: isEmpty_def)
  have e1: "isEmpty (example_controller False)
        (run (example_controller False) [Select cand_a, Flush] (init_state False)) = True"
    by (simp add: isEmpty_def sel)
  from sv sel e0 e1 useSelect_example [of False] show ?thesis by simp
qed

section \<open>Totality of the recomputation (C5)\<close>

text \<open>
  C5 at the failing input: the same controller in single mode. After \<^verbatim>\<open>clear()\<close> the
  watcher's callback evaluates \<^verbatim>\<open>getValue(items[0])\<close> on an empty array, that is
  \<^verbatim>\<open>undefined['value']\<close>, and throws a TypeError; with \<^verbatim>\<open>cand_a\<close> selected before
  the \<^verbatim>\<open>clear()\<close>, \<^verbatim>\<open>selected\<close> keeps the stale value \<open>1\<close>. The controller's
  \<^verbatim>\<open>has(undefined)\<close> throws in the same way.
\<close>

theorem watcher_throws_after_clear:
  "useSelect (example_options False) = Inr (example_controller False, init_state False)
   \<and> svalues (clear (init_state False)) = []
   \<and> snd (watch_updated (example_controller False) (clear (init_state False))) = Some TypeError
   \<and> selected (flush (example_controller False)
        (clear (run (example_controller False) [Select cand_a, Flush] (init_state False))))
      = Val (JNum 1)
   \<and> has_selected (example_controller False) JUndefined (init_state False) = Inl TypeError"
proof -
  have w: "snd (watch_updated (example_controller False) (clear (init_state False))) = Some TypeError"
    by (simp add: watch_updated_def svalues_clear getValue_def)
  have sel: "selected (run (example_controller False) [Select cand_a, Flush] (init_state False)) = Val (JNum 1)"
    by (simp add: run_def flush_def updated_select watch_updated_def svalues_select
        getValue_def getText_def cand_a_def)
  have f: "selected (flush (example_controller False)
        (clear (run (example_controller False) [Select cand_a, Flush] (init_state False))))
      = Val (JNum 1)"
    by (simp add: flush_def watch_updated_def svalues_clear getValue_def updated_clear
       clear_def forceUpdate_def sel)
  have h: "has_selected (example_controller False) JUndefined (init_state False) = Inl TypeError"
    by (simp add: has_selected_def getValue_def)
  from w f h useSelect_example [of False] show ?thesis by (simp add: svalues_clear)
qed

section \<open>Column count (C8)\<close>

text \<open>
  C8, as the claim states it, fails: with the candidate \<^verbatim>\<open>undefined\<close>, the default
  value projection \<^verbatim>\<open>'value'\<close> and \<^verbatim>\<open>cols = 0\<close>, the Value Index of line 170 is
  built before the rows of line 203, \<^verbatim>\<open>undefined['value']\<close> throws, and construction
  fails with a TypeError, not with a configuration error.
\<close>

theorem nonpositive_cols_counterexample:
  "opt_cols undefined_item_options = Some 0
   \<and> useSelect undefined_item_options = Inl TypeError
   \<and> useSelect undefined_item_options \<noteq> Inl ConfigurationError"
  by (simp add: undefined_item_options_def useSelect_def getValue_def)

text \<open>
  C8, amended: for every configuration whose column count is zero or negative,
  construction fails and does not complete: with a configuration error when the value
  projection returns on every candidate, and otherwise with the exception of the first
  candidate on which the value projection throws.
\<close>

theorem nonpositive_cols_rejected:
  assumes "opt_cols options = Some n" and "n \<le> 0"
  shows "useSelect options =
           Inl (case mapE (getValue (case opt_itemValue options of
                                       None \<Rightarrow> FieldName ''value'' | Some p \<Rightarrow> p))
                       (opt_items options) of
                  Inl e \<Rightarrow> e | Inr vs \<Rightarrow> ConfigurationError)"
  using assms by (simp add: useSelect_def splitArray_def split: sum.splits)

text \<open>
  The amended C8 at the example candidates with \<^verbatim>\<open>cols = 0\<close>, where every projection
  returns, and at the candidate \<^verbatim>\<open>undefined\<close> with \<^verbatim>\<open>cols = 0\<close>, where it throws.
\<close>

theorem nonpositive_cols_rejected_witness:
  "opt_cols (example_options True\<lparr>opt_cols := Some 0\<rparr>) = Some 0 \<and> (0::int) \<le> 0
   \<and> useSelect (example_options True\<lparr>opt_cols := Some 0\<rparr>) = Inl ConfigurationError
   \<and> opt_cols undefined_item_options = Some 0
   \<and> useSelect undefined_item_options = Inl TypeError"
  using nonpositive_cols_rejected [of "example_options True\<lparr>opt_cols := Some 0\<rparr>" 0]
    nonpositive_cols_rejected [of undefined_item_options 0]
  by (simp add: example_options_def undefined_item_options_def getValue_def cand_a_def
      cand_b_def)

section \<open>Falsy items in \<^verbatim>\<open>setValues\<close> (C10)\<close>

text \<open>
  C10: \<^verbatim>\<open>setValues\<close> keeps a looked-up item by its truthiness. For every value \<open>v\<close>
  whose entry in the Value Index is a falsy item, \<^verbatim>\<open>setValues\<close> does what it does
  without \<open>v\<close>, and what it does with a value \<open>u\<close> that has no entry in place of
  \<open>v\<close>; as a scalar argument \<open>v\<close> resolves to no item at all.
\<close>

theorem setValues_drops_falsy:
  assumes "map_of (rev (itemMap c)) v = Some i" and "\<not> truthy i"
    and "map_of (rev (itemMap c)) u = None"
  shows "setValues c (Arr (xs @ v # ys)) st = setValues c (Arr (xs @ ys)) st
         \<and> setValues c (Arr (xs @ v # ys)) st = setValues c (Arr (xs @ u # ys)) st
         \<and> setValues c (Val v) st = setValues c (Arr []) st"
proof -
  from assms(1,2) have v: "\<not> truthy (Map_get (itemMap c) v)" by (simp add: Map_get_def)
  from assms(3) have u: "\<not> truthy (Map_get (itemMap c) u)" by (simp add: Map_get_def)
  from v have 1: "resolve c (Arr (xs @ v # ys)) = resolve c (Arr (xs @ ys))" by (rule resolve_drop)
  from u have 2: "resolve c (Arr (xs @ u # ys)) = resolve c (Arr (xs @ ys))" by (rule resolve_drop)
  from v have 3: "resolve c (Val v) = resolve c (Arr [])" by (simp add: resolve_def)
  from 1 2 3 show ?thesis by (simp add: setValues_resolve)
qed

text \<open>
  C10 at the candidates \<open>[0, 5]\<close> under the identity projection: the value \<open>0\<close> has the
  candidate \<open>0\<close> as its entry, and \<^verbatim>\<open>setValues([5, 0])\<close> selects \<open>5\<close> alone.
\<close>

theorem setValues_drops_falsy_witness:
  "useSelect falsy_options = Inr (falsy_controller, init_state True)
   \<and> JNum 0 \<in> set (items falsy_controller)
   \<and> map_of (rev (itemMap falsy_controller)) (JNum 0) = Some (JNum 0) \<and> \<not> truthy (JNum 0)
   \<and> map_of (rev (itemMap falsy_controller)) (JNum 99) = None
   \<and> setValues falsy_controller (Arr [JNum 5, JNum 0]) (init_state True)
       = setValues falsy_controller (Arr [JNum 5]) (init_state True)
   \<and> setValues falsy_controller (Arr [JNum 5, JNum 0]) (init_state True)
       = setValues falsy_controller (Arr [JNum 5, JNum 99]) (init_state True)
   \<and> setValues falsy_controller (Val (JNum 0)) (init_state True)
       = setValues falsy_controller (Arr []) (init_state True)
   \<and> svalues (setValues falsy_controller (Arr [JNum 5, JNum 0]) (init_state True)) = [JNum 5]"
proof -
  have s: "svalues (setValues falsy_controller (Arr [JNum 5, JNum 0]) (init_state True)) = [JNum 5]"
    by (simp add: setValues_resolve resolve_def Map_get_def setItems_def equals_def
        svalues_select svalues_toggle svalues_clear)
  have m: "JNum 0 \<in> set (items falsy_controller)" by simp
  have h1: "map_of (rev (itemMap falsy_controller)) (JNum 0) = Some (JNum 0)" by simp
  have h2: "\<not> truthy (JNum 0)" by simp
  have h3: "map_of (rev (itemMap falsy_controller)) (JNum 99) = None" by simp
  note t = setValues_drops_falsy [OF h1 h2 h3, of "[JNum 5]" "[]" "init_state True", simplified]
  from t have t1: "setValues falsy_controller (Arr [JNum 5, JNum 0]) (init_state True)
       = setValues falsy_controller (Arr [JNum 5]) (init_state True)" by (rule conjunct1)
  from t have t2: "setValues falsy_controller (Arr [JNum 5, JNum 0]) (init_state True)
       = setValues falsy_controller (Arr [JNum 5, JNum 99]) (init_state True)"
    by (rule conjunct1 [OF conjunct2])
  from t have t3: "setValues falsy_controller (Val (JNum 0)) (init_state True)
       = setValues falsy_controller (Arr []) (init_state True)"
    by (rule conjunct2 [OF conjunct2])
  show ?thesis
    by (intro conjI) (fact useSelect_falsy m h1 h2 h3 t1 t2 t3 s)+
qed

section \<open>The derived view of a reachable state\<close>

lemma mapE_Inr:
  "mapE f xs = Inr ys \<Longrightarrow> ys = map (\<lambda>x. projr (f x)) xs \<and> (\<forall>x\<in>set xs. f x = Inr (projr (f x)))"
  by (induction xs arbitrary: ys) (auto split: sum.splits)

lemma mapE_success:
  "\<forall>x\<in>set xs. f x = Inr (g x) \<Longrightarrow> mapE f xs = Inr (map g xs)"
  by (induction xs) auto

lemma useSelect_Inr:
  assumes "useSelect options = Inr (c, st)"
  shows "st = init_state (multiple c)"
    and "itemMap c = zip (map (\<lambda>i. projr (getValue (itemValue c) i)) (items c)) (items c)"
    and "\<forall>i\<in>set (items c). getValue (itemValue c) i = Inr (projr (getValue (itemValue c) i))"
  using assms
  by (auto simp: useSelect_def Let_def split: sum.splits dest!: mapE_Inr)

lemma selected_watch_updated:
  "multiple c \<Longrightarrow> mapE (getValue (itemValue c)) (svalues st) = Inr vs \<Longrightarrow>
   selected (fst (watch_updated c st)) = Arr vs"
  by (simp add: watch_updated_def Let_def split: sum.splits)

lemma select_progress:
  "updated st \<le> updated (select c i st)
   \<and> (updated (select c i st) = updated st \<longrightarrow> svalues (select c i st) = svalues st)"
  by (simp add: updated_select svalues_select updated_toggle svalues_toggle)

lemma fold_select_progress:
  "updated st \<le> updated (fold (select c) its st)
   \<and> (updated (fold (select c) its st) = updated st \<longrightarrow> svalues (fold (select c) its st) = svalues st)"
proof (induction its arbitrary: st)
  case Nil
  then show ?case by simp
next
  case (Cons i its)
  note s = select_progress [of st c i]
  note f = Cons.IH [of "select c i st"]
  from s f show ?case by auto
qed

lemma apply_op_progress:
  "updated st \<le> updated (apply_op c x st)
   \<and> (updated (apply_op c x st) = updated st \<longrightarrow> svalues (apply_op c x st) = svalues st)"
proof (cases x)
  case (Add i)
  then show ?thesis by (simp add: updated_add svalues_add)
next
  case (Remove i)
  then show ?thesis by (simp add: updated_removeS svalues_removeS)
next
  case (Toggle i)
  then show ?thesis by (simp add: updated_toggle svalues_toggle)
next
  case Clear
  then show ?thesis by (simp add: updated_clear)
next
  case (Select i)
  then show ?thesis using select_progress [of st c i] by simp
next
  case (SetItems its)
  then show ?thesis using updated_setItems [of its st c] by (auto split: if_splits)
next
  case (SetValues vs)
  then show ?thesis using updated_setItems [of "resolve c vs" st c]
    by (auto simp: setValues_resolve split: if_splits)
next
  case Flush
  then show ?thesis by simp
qed

lemma apply_op_derived:
  "x \<noteq> Flush \<Longrightarrow> selected (apply_op c x st) = selected st \<and> watch_old (apply_op c x st) = watch_old st"
  by (cases x) simp_all

lemma flush_synced:
  assumes m: "multiple c"
    and v: "\<forall>i\<in>set (items c). getValue (itemValue c) i = Inr (g i)"
    and sub: "set (svalues st) \<subseteq> set (items c)"
    and sync: "watch_old st = updated st \<longrightarrow> selected st = Arr (map g (svalues st))"
  shows "selected (flush c st) = Arr (map g (svalues st)) \<and> watch_old (flush c st) = updated st"
proof (cases "updated st = watch_old st")
  case True
  with sync show ?thesis by (simp add: flush_def)
next
  case False
  from v sub have "\<forall>i\<in>set (svalues st). getValue (itemValue c) i = Inr (g i)" by blast
  then have "mapE (getValue (itemValue c)) (svalues st) = Inr (map g (svalues st))"
    by (rule mapE_success)
  with m have "selected (fst (watch_updated c st)) = Arr (map g (svalues st))"
    by (rule selected_watch_updated)
  with False show ?thesis by (simp add: flush_def)
qed

lemma apply_op_sync:
  assumes m: "multiple c"
    and v: "\<forall>i\<in>set (items c). getValue (itemValue c) i = Inr (g i)"
    and sub: "set (svalues st) \<subseteq> set (items c)"
    and le: "watch_old st \<le> updated st"
    and sync: "watch_old st = updated st \<longrightarrow> selected st = Arr (map g (svalues st))"
  shows "watch_old (apply_op c x st) \<le> updated (apply_op c x st)
         \<and> (watch_old (apply_op c x st) = updated (apply_op c x st)
              \<longrightarrow> selected (apply_op c x st) = Arr (map g (svalues (apply_op c x st))))"
proof (cases "x = Flush")
  case True
  with flush_synced [OF m v sub sync] show ?thesis by simp
next
  case False
  note d = apply_op_derived [OF False, of c st]
  note p = apply_op_progress [of st c x]
  from d p le sync show ?thesis by auto
qed

lemma run_sync:
  assumes m: "multiple c"
    and v: "\<forall>i\<in>set (items c). getValue (itemValue c) i = Inr (g i)"
  shows "set (svalues st) \<subseteq> set (items c) \<Longrightarrow> watch_old st \<le> updated st \<Longrightarrow>
         (watch_old st = updated st \<longrightarrow> selected st = Arr (map g (svalues st))) \<Longrightarrow>
         watch_old (run c ops st) \<le> updated (run c ops st)
         \<and> (watch_old (run c ops st) = updated (run c ops st)
              \<longrightarrow> selected (run c ops st) = Arr (map g (svalues (run c ops st))))"
  unfolding run_def
proof (induction ops arbitrary: st)
  case Nil
  then show ?case by simp
next
  case (Cons x ops)
  note a = apply_op_sync [OF m v Cons.prems(1) Cons.prems(2) Cons.prems(3), of x]
  note s = apply_op_preserves [OF Cons.prems(1), of x]
  from Cons.IH [OF s conjunct1 [OF a] conjunct2 [OF a]] show ?case by simp
qed

section \<open>Re-applying the selected values (C7)\<close>

lemma toReactive_toRaw [simp]: "toReactive (toRaw v) = toReactive v"
  by (cases v) simp_all

lemma useSelect_valueOf:
  assumes "useSelect options = Inr (c, st0)"
  shows "\<forall>i\<in>set (items c). getValue (itemValue c) i = Inr (valueOf c i)"
proof
  fix i assume "i \<in> set (items c)"
  with useSelect_Inr(3) [OF assms]
  have "getValue (itemValue c) i = Inr (projr (getValue (itemValue c) i))" by blast
  then obtain v where v: "getValue (itemValue c) i = Inr v" ..
  then show "getValue (itemValue c) i = Inr (valueOf c i)" by (simp add: valueOf_def)
qed

lemma length_filter_eq: "(length (filter P xs) = length xs) = list_all P xs"
proof (induction xs)
  case Nil
  then show ?case by simp
next
  case (Cons x xs)
  have "length (filter P xs) \<noteq> Suc (length xs)"
    using length_filter_le [of P xs] by linarith
  with Cons show ?case by auto
qed

lemma setItems_fixed: "(setItems c its st = st) = equals its st"
proof
  assume e: "setItems c its st = st"
  show "equals its st"
  proof (rule ccontr)
    assume "\<not> equals its st"
    with updated_setItems [of its st c] have "updated st + 1 \<le> updated (setItems c its st)"
      by simp
    with e show False by simp
  qed
next
  assume "equals its st"
  then show "setItems c its st = st" by (simp add: setItems_def)
qed

lemma reachable_view:
  assumes ok: "useSelect options = Inr (c, st0)" and m: "multiple c"
  shows "selected (flush c (run c ops st0)) = Arr (map (valueOf c) (svalues (run c ops st0)))"
proof -
  note u = useSelect_Inr [OF ok]
  note v = useSelect_valueOf [OF ok]
  let ?st1 = "run c ops st0"
  have sub0: "set (svalues st0) \<subseteq> set (items c)" by (simp add: u(1))
  have sub1: "set (svalues ?st1) \<subseteq> set (items c)" using sub0 by (rule run_preserves)
  have sync1: "watch_old ?st1 = updated ?st1 \<longrightarrow> selected ?st1 = Arr (map (valueOf c) (svalues ?st1))"
    using run_sync [OF m v sub0, of ops] m by (simp add: u(1))
  from flush_synced [OF m v sub1 sync1] show ?thesis by simp
qed

lemma selected_flush_multiple:
  assumes "multiple c" and "updated st \<noteq> watch_old st"
    and "mapE (getValue (itemValue c)) (svalues st) = Inr vs"
  shows "selected (flush c st) = Arr vs"
  using assms by (simp add: flush_def selected_watch_updated)

text \<open>
  C7, as the claim states it, fails. When distinct candidates project to the same value:
  with \<^verbatim>\<open>twin_a\<close> and \<^verbatim>\<open>twin_b\<close> both of value \<open>1\<close>, in multiple mode, after
  \<^verbatim>\<open>select(twin_a)\<close> and the run of the watcher the selected values are \<open>[1]\<close>;
  \<^verbatim>\<open>setValues([1])\<close> resolves \<open>1\<close> to \<^verbatim>\<open>twin_b\<close>, the later candidate, replaces
  the selection by it and increments the counter twice. When a selected item is falsy:
  with the candidate \<open>0\<close> selected under the identity projection, \<^verbatim>\<open>setValues([0])\<close>
  drops the looked-up item \<open>0\<close> and empties the selection. When the values are objects:
  with \<^verbatim>\<open>obj_a\<close> and \<^verbatim>\<open>obj_b\<close> selected under the identity projection, a read of
  \<^verbatim>\<open>selected.value\<close> hands out their reactive proxies, which are no keys of the Value
  Index, and \<^verbatim>\<open>setValues\<close> empties the selection, the counter going from 2 to 3.
\<close>

theorem setValues_roundtrip_counterexample:
  "useSelect twin_options = Inr (twin_controller, init_state True)
   \<and> svalues (flush twin_controller (select twin_controller twin_a (init_state True)))
       = [twin_a]
   \<and> read_selected (flush twin_controller (select twin_controller twin_a (init_state True)))
       = Arr [JNum 1]
   \<and> svalues (setValues twin_controller
        (read_selected (flush twin_controller (select twin_controller twin_a (init_state True))))
        (flush twin_controller (select twin_controller twin_a (init_state True))))
       = [twin_b]
   \<and> updated (setValues twin_controller
        (read_selected (flush twin_controller (select twin_controller twin_a (init_state True))))
        (flush twin_controller (select twin_controller twin_a (init_state True))))
       = updated (flush twin_controller (select twin_controller twin_a (init_state True))) + 2
   \<and> useSelect falsy_options = Inr (falsy_controller, init_state True)
   \<and> svalues (flush falsy_controller (select falsy_controller (JNum 0) (init_state True)))
       = [JNum 0]
   \<and> read_selected (flush falsy_controller (select falsy_controller (JNum 0) (init_state True)))
       = Arr [JNum 0]
   \<and> svalues (setValues falsy_controller
        (read_selected (flush falsy_controller
           (select falsy_controller (JNum 0) (init_state True))))
        (flush falsy_controller (select falsy_controller (JNum 0) (init_state True))))
       = []
   \<and> useSelect object_options = Inr (object_controller, init_state True)
   \<and> svalues (flush object_controller
        (run object_controller [Select obj_a, Select obj_b] (init_state True)))
       = [obj_a, obj_b]
   \<and> read_selected (flush object_controller
        (run object_controller [Select obj_a, Select obj_b] (init_state True)))
       = Arr [toReactive obj_a, toReactive obj_b]
   \<and> svalues (setValues object_controller
        (read_selected (flush object_controller
           (run object_controller [Select obj_a, Select obj_b] (init_state True))))
        (flush object_controller
           (run object_controller [Select obj_a, Select obj_b] (init_state True))))
       = []
   \<and> updated (setValues object_controller
        (read_selected (flush object_controller
           (run object_controller [Select obj_a, Select obj_b] (init_state True))))
        (flush object_controller
           (run object_controller [Select obj_a, Select obj_b] (init_state True))))
       = 3"
proof -
  let ?t = "flush twin_controller (select twin_controller twin_a (init_state True))"
  let ?f = "flush falsy_controller (select falsy_controller (JNum 0) (init_state True))"
  let ?o = "flush object_controller
        (run object_controller [Select obj_a, Select obj_b] (init_state True))"
  have ne: "twin_a \<noteq> twin_b" by (simp add: twin_a_def twin_b_def)
  have svt: "svalues ?t = [twin_a]"
    by (simp add: svalues_select svalues_toggle)
  have "selected ?t = Arr [JNum 1]"
    by (rule selected_flush_multiple)
      (simp_all add: updated_select updated_toggle svalues_select svalues_toggle
        getValue_def twin_a_def)
  then have rdt: "read_selected ?t = Arr [JNum 1]" by (simp add: read_selected_def)
  have rt: "resolve twin_controller (Arr [JNum 1]) = [twin_b]"
    by (simp add: resolve_def Map_get_def twin_b_def)
  have et: "\<not> equals [twin_b] ?t"
    using ne svt by (simp add: equals_iff)
  have sit: "setValues twin_controller (Arr [JNum 1]) ?t
             = select twin_controller twin_b (clear ?t)"
    using et by (simp add: setValues_resolve rt setItems_def)
  have svt2: "svalues (setValues twin_controller (read_selected ?t) ?t) = [twin_b]"
    by (simp add: rdt sit svalues_select svalues_toggle svalues_clear)
  have upt2: "updated (setValues twin_controller (read_selected ?t) ?t) = updated ?t + 2"
    by (simp add: rdt sit updated_select updated_toggle updated_clear svalues_clear)
  have svf: "svalues ?f = [JNum 0]"
    by (simp add: svalues_select svalues_toggle)
  have "selected ?f = Arr [JNum 0]"
    by (rule selected_flush_multiple)
      (simp_all add: updated_select updated_toggle svalues_select svalues_toggle getValue_def)
  then have rdf: "read_selected ?f = Arr [JNum 0]" by (simp add: read_selected_def)
  have rf: "resolve falsy_controller (Arr [JNum 0]) = []"
    by (simp add: resolve_def Map_get_def)
  have ef: "\<not> equals [] ?f"
    using svf by (simp add: equals_iff)
  have svf2: "svalues (setValues falsy_controller (read_selected ?f) ?f) = []"
    using ef by (simp add: rdf setValues_resolve rf setItems_def svalues_clear)
  have neo: "obj_a \<noteq> obj_b" by (simp add: obj_a_def obj_b_def)
  have svo: "svalues ?o = [obj_a, obj_b]"
    using neo by (simp add: run_def svalues_select svalues_toggle)
  have upo: "updated ?o = 2"
    using neo by (simp add: run_def updated_select updated_toggle svalues_select svalues_toggle)
  have "selected ?o = Arr [obj_a, obj_b]"
    using neo
    by (intro selected_flush_multiple)
      (simp_all add: run_def updated_select updated_toggle svalues_select svalues_toggle
        getValue_def)
  then have rdo: "read_selected ?o = Arr [toReactive obj_a, toReactive obj_b]"
    by (simp add: read_selected_def)
  have ro: "resolve object_controller (Arr [toReactive obj_a, toReactive obj_b]) = []"
    by (simp add: resolve_def Map_get_def obj_a_def obj_b_def)
  have eo: "\<not> equals [] ?o"
    using svo by (simp add: equals_iff)
  have svo2: "svalues (setValues object_controller (read_selected ?o) ?o) = []"
    using eo by (simp add: rdo setValues_resolve ro setItems_def svalues_clear)
  have upo2: "updated (setValues object_controller (read_selected ?o) ?o) = 3"
    using eo upo by (simp add: rdo setValues_resolve ro setItems_def updated_clear)
  show ?thesis
    by (intro conjI)
      (fact useSelect_twin svt rdt svt2 upt2 useSelect_falsy svf rdf svf2 useSelect_object
        svo rdo svo2 upo2)+
qed

text \<open>
  C7, amended: in multiple mode, in every state reached from the constructed controller
  by a sequence of calls and followed by a run of the watcher (so that the derived view is
  current), the selected values read from \<^verbatim>\<open>selected.value\<close> are the values of the
  selected items in insertion order, each as the deep \<^verbatim>\<open>ref\<close> hands it out, and
  \<^verbatim>\<open>setValues\<close> of them leaves the whole state as it is (Selection Set unchanged,
  counter not incremented) exactly when the value of every selected item, so read,
  resolves through the Value Index to a truthy item that is selected; in particular when
  every selected item is truthy and is itself the item that its value resolves to.
\<close>

theorem setValues_roundtrip:
  assumes ok: "useSelect options = Inr (c, st0)"
    and m: "multiple c"
    and st: "st = flush c (run c ops st0)"
  shows "read_selected st = Arr (map (\<lambda>i. toReactive (valueOf c i)) (svalues st))
         \<and> (setValues c (read_selected st) st = st)
             = list_all (\<lambda>i. truthy (read_back c i) \<and> read_back c i \<in> set (svalues st))
                 (svalues st)
         \<and> (list_all (\<lambda>i. truthy i \<and> read_back c i = i) (svalues st)
              \<longrightarrow> setValues c (read_selected st) st = st)"
proof -
  from reachable_view [OF ok m, of ops] st
  have sel: "selected st = Arr (map (valueOf c) (svalues st))" by simp
  then have rd: "read_selected st = Arr (map (\<lambda>i. toReactive (valueOf c i)) (svalues st))"
    by (simp add: read_selected_def comp_def)
  have res: "resolve c (read_selected st) = filter truthy (map (read_back c) (svalues st))"
    by (simp add: rd resolve_def read_back_def [abs_def] comp_def)
  have "(setValues c (read_selected st) st = st)
        = equals (filter truthy (map (read_back c) (svalues st))) st"
    by (simp only: setValues_resolve res setItems_fixed)
  also have "\<dots> = (list_all truthy (map (read_back c) (svalues st))
                    \<and> set (filter truthy (map (read_back c) (svalues st))) \<subseteq> set (svalues st))"
    by (simp add: equals_iff length_filter_eq [symmetric])
  also have "\<dots> = list_all (\<lambda>i. truthy (read_back c i) \<and> read_back c i \<in> set (svalues st))
                     (svalues st)"
    by (auto simp: list_all_iff)
  finally have iff: "(setValues c (read_selected st) st = st)
        = list_all (\<lambda>i. truthy (read_back c i) \<and> read_back c i \<in> set (svalues st))
            (svalues st)" .
  have suff: "list_all (\<lambda>i. truthy i \<and> read_back c i = i) (svalues st)
              \<longrightarrow> setValues c (read_selected st) st = st"
    unfolding iff by (auto simp: list_all_iff)
  from rd iff suff show ?thesis by blast
qed

text \<open>
  The amended C7 in multiple mode after a run of the watcher: at the example candidates
  with both selected, at the candidates of equal value with the later one selected, and
  at the candidates \<open>[0, 5]\<close> with \<open>5\<close> selected.
\<close>

theorem setValues_roundtrip_witness:
  "useSelect (example_options True) = Inr (example_controller True, init_state True)
   \<and> multiple (example_controller True)
   \<and> svalues (flush (example_controller True)
        (run (example_controller True) [Select cand_a, Select cand_b] (init_state True)))
       = [cand_a, cand_b]
   \<and> read_selected (flush (example_controller True)
        (run (example_controller True) [Select cand_a, Select cand_b] (init_state True)))
       = Arr [JNum 1, JNum 2]
   \<and> setValues (example_controller True)
        (read_selected (flush (example_controller True)
           (run (example_controller True) [Select cand_a, Select cand_b] (init_state True))))
        (flush (example_controller True)
           (run (example_controller True) [Select cand_a, Select cand_b] (init_state True)))
       = flush (example_controller True)
           (run (example_controller True) [Select cand_a, Select cand_b] (init_state True))
   \<and> useSelect twin_options = Inr (twin_controller, init_state True)
   \<and> svalues (flush twin_controller (run twin_controller [Select twin_b] (init_state True)))
       = [twin_b]
   \<and> setValues twin_controller
        (read_selected (flush twin_controller
           (run twin_controller [Select twin_b] (init_state True))))
        (flush twin_controller (run twin_controller [Select twin_b] (init_state True)))
       = flush twin_controller (run twin_controller [Select twin_b] (init_state True))
   \<and> useSelect falsy_options = Inr (falsy_controller, init_state True)
   \<and> svalues (flush falsy_controller (run falsy_controller [Select (JNum 5)] (init_state True)))
       = [JNum 5]
   \<and> setValues falsy_controller
        (read_selected (flush falsy_controller
           (run falsy_controller [Select (JNum 5)] (init_state True))))
        (flush falsy_controller (run falsy_controller [Select (JNum 5)] (init_state True)))
       = flush falsy_controller (run falsy_controller [Select (JNum 5)] (init_state True))"
proof -
  let ?e = "flush (example_controller True)
        (run (example_controller True) [Select cand_a, Select cand_b] (init_state True))"
  let ?t = "flush twin_controller (run twin_controller [Select twin_b] (init_state True))"
  let ?f = "flush falsy_controller (run falsy_controller [Select (JNum 5)] (init_state True))"
  have m: "multiple (example_controller True)" by simp
  have mt: "multiple twin_controller" by simp
  have mf: "multiple falsy_controller" by simp
  have sve: "svalues ?e = [cand_a, cand_b]"
    by (simp add: run_def svalues_select svalues_toggle cand_a_def cand_b_def)
  have svt: "svalues ?t = [twin_b]"
    by (simp add: run_def svalues_select svalues_toggle)
  have svf: "svalues ?f = [JNum 5]"
    by (simp add: run_def svalues_select svalues_toggle)
  note te = setValues_roundtrip [OF useSelect_example m refl,
      of "[Select cand_a, Select cand_b]"]
  note tt = setValues_roundtrip [OF useSelect_twin mt refl, of "[Select twin_b]"]
  note tf = setValues_roundtrip [OF useSelect_falsy mf refl, of "[Select (JNum 5)]"]
  have rde: "read_selected ?e = Arr [JNum 1, JNum 2]"
    using conjunct1 [OF te, unfolded sve]
    by (simp add: valueOf_def getValue_def cand_a_def cand_b_def)
  have "list_all (\<lambda>i. truthy i \<and> read_back (example_controller True) i = i) (svalues ?e)"
    unfolding sve
    by (simp add: read_back_def Map_get_def valueOf_def getValue_def cand_a_def cand_b_def)
  with conjunct2 [OF conjunct2 [OF te]]
  have re: "setValues (example_controller True) (read_selected ?e) ?e = ?e" by blast
  have "list_all (\<lambda>i. truthy i \<and> read_back twin_controller i = i) (svalues ?t)"
    unfolding svt
    by (simp add: read_back_def Map_get_def valueOf_def getValue_def twin_b_def)
  with conjunct2 [OF conjunct2 [OF tt]]
  have rt: "setValues twin_controller (read_selected ?t) ?t = ?t" by blast
  have "list_all (\<lambda>i. truthy i \<and> read_back falsy_controller i = i) (svalues ?f)"
    unfolding svf
    by (simp add: read_back_def Map_get_def valueOf_def getValue_def)
  with conjunct2 [OF conjunct2 [OF tf]]
  have rf: "setValues falsy_controller (read_selected ?f) ?f = ?f" by blast
  show ?thesis
    by (intro conjI)
      (fact useSelect_example m sve rde re useSelect_twin svt rt useSelect_falsy svf rf)+
qed

section \<open>One call and the run of the watchers (C4)\<close>















end
